theory Spec2Isabelle
  imports Main "HOL-Library.Sublist"
begin

section \<open>The session event monitor of \<^verbatim>\<open>src/agent/entrypoint.py\<close>\<close>

text \<open>
  The development embeds the monitoring part of \<^verbatim>\<open>main\<close> (from the creation of the
  \<^verbatim>\<open>ProgressTracker\<close> on, lines 214 to 384) together with the class
  \<^verbatim>\<open>ProgressTracker\<close>. The validation of the environment and the loading of the
  prompt files come before that point and are not part of the model.

  A Python \<^verbatim>\<open>str\<close> is modelled by \<^typ>\<open>string\<close>: a list of code points, over the
  256 code points that \<^typ>\<open>char\<close> has. \<^verbatim>\<open>len\<close> is \<^const>\<open>length\<close>, the slice
  \<^verbatim>\<open>s[:100]\<close> is \<^term>\<open>take 100 s\<close>, and \<^verbatim>\<open>k in s\<close> on two strings is
  \<^term>\<open>sublist k s\<close> (a contiguous occurrence).
\<close>

subsection \<open>Python string operations\<close>

text \<open>\<^verbatim>\<open>str.isspace\<close> on one code point below 256: TAB to CR, FS to US, the space, NEL and
  the no-break space.\<close>

definition isspace :: "char \<Rightarrow> bool" where
  "isspace c =
     (let n = (of_char c :: nat)
      in (9 \<le> n \<and> n \<le> 13) \<or> (28 \<le> n \<and> n \<le> 32) \<or> n = 133 \<or> n = 160)"

text \<open>\<^verbatim>\<open>str.strip()\<close> without argument removes the leading and the trailing white space.\<close>

definition strip :: "string \<Rightarrow> string" where
  "strip s = rev (dropWhile isspace (rev (dropWhile isspace s)))"

text \<open>\<^verbatim>\<open>str.lower()\<close> on one code point below 256: the letters A to Z and the accented
  capitals 192 to 222 (without the multiplication sign 215) move up by 32.\<close>

definition lower_char :: "char \<Rightarrow> char" where
  "lower_char c =
     (let n = (of_char c :: nat)
      in if (65 \<le> n \<and> n \<le> 90) \<or> (192 \<le> n \<and> n \<le> 222 \<and> n \<noteq> 215)
         then char_of (n + 32) else c)"

definition lower :: "string \<Rightarrow> string" where
  "lower s = map lower_char s"

text \<open>\<^verbatim>\<open>d.get(k, default)\<close> on a dictionary.\<close>

definition dict_get :: "('k \<rightharpoonup> 'v) \<Rightarrow> 'k \<Rightarrow> 'v \<Rightarrow> 'v" where
  "dict_get d k dflt = (case d k of None \<Rightarrow> dflt | Some v \<Rightarrow> v)"

subsection \<open>Messages and content blocks of the SDK\<close>

text \<open>
  The attribute \<^verbatim>\<open>is_error\<close> of a tool result is read through
  \<^verbatim>\<open>hasattr(block, "is_error") and block.is_error\<close>: it may be missing, hold
  \<^verbatim>\<open>None\<close>, or hold a boolean.
\<close>

datatype is_error_attr = Absent | NoneValue | BoolValue bool

text \<open>
  The content blocks that the loop tells apart with \<^verbatim>\<open>isinstance\<close>; any other block
  (a thinking block, say) is \<open>OtherBlock\<close>. The parameters of a tool invocation that
  the monitor reads (\<^verbatim>\<open>file_path\<close>, \<^verbatim>\<open>command\<close>, \<^verbatim>\<open>pattern\<close>, \<^verbatim>\<open>path\<close>) are strings,
  as the signatures of \<^verbatim>\<open>ProgressTracker\<close> declare them.
\<close>

datatype block =
    ToolUseBlock string "string \<rightharpoonup> string"
  | ToolResultBlock is_error_attr
  | TextBlock string
  | OtherBlock

text \<open>
  The messages of a response. The loop looks into a message only when it is an
  \<^verbatim>\<open>AssistantMessage\<close> (line 255). \<open>UserMessage\<close> is a user message whose content
  is a list of blocks; \<open>OtherMessage\<close> is any message without content blocks (a
  system or result message, a user message with plain text).
\<close>

datatype message = AssistantMessage "block list" | UserMessage "block list" | OtherMessage

text \<open>The exceptions that the \<^verbatim>\<open>except\<close> clauses of \<^verbatim>\<open>main\<close> tell apart, with their
  text.\<close>

datatype exn = CLINotFoundError string | ProcessError string | OtherException string

subsection \<open>The log\<close>

text \<open>
  One constructor for each \<^verbatim>\<open>log(...)\<close> call of the modelled part; the arguments are the
  values that the format string interpolates. A constructor stands for the fixed text of
  its format string (icon, colour codes and wording), so two different constructors are
  two different messages. The time stamps and the elapsed time are not modelled.
\<close>

datatype line =
    Initializing
  | Separator
  | RunningAnalysis
  | Monitoring
  | RealTimeNote
  | Reading string
  | Writing string
  | Running string
  | Searching string string
  | FindingFiles string
  | UsingTool string
  | ToolExecutionFailed
  | Claude string
  | CompletedSuccessfully
  | Blank
  | FinalResults
  | ToolsUsedLine "string set"
  | AnalysisStatistics
  | SummaryCompletedIn
  | SummaryFilesRead nat
  | SummaryFilesWritten nat
  | SummaryCommandsRun nat
  | SummarySearches nat
  | RecommendationsFile
  | FileSize nat
  | ContentLines nat
  | WrittenToStepSummary
  | AvailableInLocalFile
  | CouldNotReadFile string
  | NoRecommendationsFile
  | CliNotFound string
  | MakeSureCliInstalled
  | ClaudeProcessError string
  | UnexpectedError string
  | CompletedAt

subsection \<open>ProgressTracker\<close>

record ProgressTracker =
  files_read :: "string list"
  files_written :: "string list"
  commands_run :: "string list"
  searches_performed :: "string list"

definition init_tracker :: ProgressTracker where
  "init_tracker =
     \<lparr>files_read = [], files_written = [], commands_run = [], searches_performed = []\<rparr>"

definition add_file_read :: "string \<Rightarrow> ProgressTracker \<Rightarrow> ProgressTracker" where
  "add_file_read path t = t\<lparr>files_read := files_read t @ [path]\<rparr>"

definition add_file_written :: "string \<Rightarrow> ProgressTracker \<Rightarrow> ProgressTracker" where
  "add_file_written path t = t\<lparr>files_written := files_written t @ [path]\<rparr>"

definition add_command :: "string \<Rightarrow> ProgressTracker \<Rightarrow> ProgressTracker" where
  "add_command cmd t = t\<lparr>commands_run := commands_run t @ [cmd]\<rparr>"

definition add_search :: "string \<Rightarrow> ProgressTracker \<Rightarrow> ProgressTracker" where
  "add_search pattern t = t\<lparr>searches_performed := searches_performed t @ [pattern]\<rparr>"

text \<open>The lines of \<^verbatim>\<open>get_summary()\<close>, as \<^verbatim>\<open>main\<close> logs them after splitting at the line
  breaks.\<close>

definition get_summary :: "ProgressTracker \<Rightarrow> line list" where
  "get_summary t =
     [SummaryCompletedIn,
      SummaryFilesRead (length (files_read t)),
      SummaryFilesWritten (length (files_written t)),
      SummaryCommandsRun (length (commands_run t)),
      SummarySearches (length (searches_performed t))]"

subsection \<open>The state of the monitor and the processing of one block\<close>

record monitor =
  tracker :: ProgressTracker
  tools_used :: "string set"
  claude_reasoning_count :: nat
  logged :: "line list"

definition init_monitor :: monitor where
  "init_monitor =
     \<lparr>tracker = init_tracker, tools_used = {}, claude_reasoning_count = 0, logged = []\<rparr>"

definition log :: "line \<Rightarrow> monitor \<Rightarrow> monitor" where
  "log l m = m\<lparr>logged := logged m @ [l]\<rparr>"

definition important_keywords :: "string list" where
  "important_keywords = [''analysis'', ''recommendations'', ''found'', ''creating'', ''complete'',
               ''examining'', ''checking'', ''writing'', ''generating'']"

text \<open>The condition of line 299: the count is even, or some keyword occurs in the
  lower-cased text.\<close>

definition show_reasoning :: "nat \<Rightarrow> string \<Rightarrow> bool" where
  "show_reasoning n text =
     (n mod 2 = 0 \<or> list_ex (\<lambda>keyword. sublist keyword (lower text)) important_keywords)"

text \<open>The body of the loop over \<^verbatim>\<open>message.content\<close> (lines 257 to 317).\<close>

fun process_block :: "block \<Rightarrow> monitor \<Rightarrow> monitor" where
  "process_block (ToolUseBlock tool_name inp) m0 =
     (let m = m0\<lparr>tools_used := insert tool_name (tools_used m0)\<rparr>
      in if tool_name = ''Read'' then
           (let file_path = dict_get inp ''file_path'' '''';
                m1 = log (Reading file_path) m
            in m1\<lparr>tracker := add_file_read file_path (tracker m1)\<rparr>)
         else if tool_name \<in> set [''Write'', ''MultiEdit'', ''Edit''] then
           (let file_path = dict_get inp ''file_path'' '''';
                m1 = log (Writing file_path) m
            in m1\<lparr>tracker := add_file_written file_path (tracker m1)\<rparr>)
         else if tool_name = ''Bash'' then
           (let command = take 100 (dict_get inp ''command'' '''');
                m1 = log (Running (command @ ''...'')) m
            in m1\<lparr>tracker := add_command command (tracker m1)\<rparr>)
         else if tool_name = ''Grep'' then
           (let pattern = dict_get inp ''pattern'' '''';
                path = dict_get inp ''path'' ''.'';
                m1 = log (Searching pattern path) m
            in m1\<lparr>tracker := add_search pattern (tracker m1)\<rparr>)
         else if tool_name = ''Glob'' then
           (let pattern = dict_get inp ''pattern'' '''';
                m1 = log (FindingFiles pattern) m
            in m1\<lparr>tracker := add_search pattern (tracker m1)\<rparr>)
         else log (UsingTool tool_name) m)"
| "process_block (ToolResultBlock is_error) m =
     (if is_error = BoolValue True then log ToolExecutionFailed m else m)"
| "process_block (TextBlock btext) m0 =
     (if strip btext \<noteq> [] then
        (let text = strip btext;
             m = m0\<lparr>claude_reasoning_count := claude_reasoning_count m0 + 1\<rparr>
         in if show_reasoning (claude_reasoning_count m) text then
              (if length text > 100 then log (Claude (take 100 text @ ''...'')) m
               else log (Claude text) m)
            else m)
      else m0)"
| "process_block OtherBlock m = m"

text \<open>The loop over the blocks of one message, and the loop over the messages of the
  response; a message that is not an \<^verbatim>\<open>AssistantMessage\<close> is skipped.\<close>

fun process_blocks :: "block list \<Rightarrow> monitor \<Rightarrow> monitor" where
  "process_blocks [] m = m"
| "process_blocks (b # bs) m = process_blocks bs (process_block b m)"

fun process_message :: "message \<Rightarrow> monitor \<Rightarrow> monitor" where
  "process_message (AssistantMessage content) m = process_blocks content m"
| "process_message (UserMessage content) m = m"
| "process_message OtherMessage m = m"

fun process_messages :: "message list \<Rightarrow> monitor \<Rightarrow> monitor" where
  "process_messages [] m = m"
| "process_messages (msg # msgs) m = process_messages msgs (process_message msg m)"

subsection \<open>The run: connection, streaming, final report\<close>

text \<open>
  What the run observes from outside: the result of \<^verbatim>\<open>client.connect()\<close> and of
  \<^verbatim>\<open>client.query(...)\<close> (\<open>None\<close> when the call returns, \<open>Some e\<close> when it raises
  \<open>e\<close>), the messages that \<^verbatim>\<open>client.receive_response()\<close> yields and how the
  iteration ends (\<open>None\<close>: the stream is exhausted; \<open>Some e\<close>: it raises \<open>e\<close> after the
  messages), and the answers of the file system about the recommendations file:
  \<^verbatim>\<open>exists()\<close>, \<^verbatim>\<open>stat().st_size\<close>, \<^verbatim>\<open>read_text()\<close> and the append to the step summary
  (\<open>Inl e\<close> and \<open>Some e\<close>: the call raises \<open>e\<close>). Entering and leaving the
  \<^verbatim>\<open>async with\<close> block belong to the SDK and are taken not to raise.
\<close>

record environment =
  connect :: "exn option"
  query :: "exn option"
  messages :: "message list"
  stream_end :: "exn option"
  report_exists :: bool
  report_stat :: "exn + nat"
  report_read_text :: "exn + string"
  is_github_actions :: bool
  step_summary_write :: "exn option"

text \<open>
  The source has no type for the outcome of a run: an outcome is the branch in which
  \<^verbatim>\<open>main\<close> ends. The constructors name these branches: the normal return (line 384),
  the \<^verbatim>\<open>sys.exit(1)\<close> of lines 363, 369, 374, 377 and 380.
\<close>

datatype outcome =
    Success
  | ReportUnreadable
  | NoReportProduced
  | SessionToolingMissing
  | SessionProcessFailed
  | UnexpectedFailure

record result =
  outcome :: outcome
  exit_status :: nat
  final :: monitor

text \<open>\<^verbatim>\<open>sys.exit(n)\<close> raises \<^verbatim>\<open>SystemExit\<close>, which no \<^verbatim>\<open>except Exception\<close> clause
  catches: the run ends there with status \<open>n\<close>.\<close>

definition sys_exit :: "outcome \<Rightarrow> nat \<Rightarrow> monitor \<Rightarrow> result" where
  "sys_exit oc n m = \<lparr>outcome = oc, exit_status = n, final = m\<rparr>"

text \<open>The text of an exception, as \<^verbatim>\<open>{e}\<close> prints it.\<close>

fun exn_text :: "exn \<Rightarrow> string" where
  "exn_text (CLINotFoundError d) = d"
| "exn_text (ProcessError d) = d"
| "exn_text (OtherException d) = d"

text \<open>The three \<^verbatim>\<open>except\<close> clauses of lines 371 to 380.\<close>

fun handle_exception :: "exn \<Rightarrow> monitor \<Rightarrow> result" where
  "handle_exception (CLINotFoundError d) m =
     sys_exit SessionToolingMissing 1 (log MakeSureCliInstalled (log (CliNotFound d) m))"
| "handle_exception (ProcessError d) m =
     sys_exit SessionProcessFailed 1 (log (ClaudeProcessError d) m)"
| "handle_exception (OtherException d) m =
     sys_exit UnexpectedFailure 1 (log (UnexpectedError d) m)"

text \<open>Lines 382 to 384, and the return of \<^verbatim>\<open>main\<close>: the process ends with status 0.\<close>

definition completed :: "monitor \<Rightarrow> result" where
  "completed m =
     \<lparr>outcome = Success, exit_status = 0,
      final = log Blank (log CompletedAt (log Blank m))\<rparr>"

text \<open>\<^verbatim>\<open>content.split("\n")\<close>: the pieces between the line feeds.\<close>

fun split_lines :: "string \<Rightarrow> string list" where
  "split_lines [] = [[]]"
| "split_lines (c # cs) =
     (if c = CHR 0x0A then [] # split_lines cs
      else (c # hd (split_lines cs)) # tl (split_lines cs))"

fun log_all :: "line list \<Rightarrow> monitor \<Rightarrow> monitor" where
  "log_all [] m = m"
| "log_all (l # ls) m = log_all ls (log l m)"

text \<open>Lines 341 to 369: the check of the recommendations file.\<close>

definition check_report :: "environment \<Rightarrow> monitor \<Rightarrow> result" where
  "check_report env m =
     (if report_exists env then
        (case report_stat env of
           Inl e \<Rightarrow> handle_exception e m
         | Inr file_size \<Rightarrow>
             (let m1 = log (FileSize file_size) (log RecommendationsFile m)
              in case report_read_text env of
                   Inl e \<Rightarrow> sys_exit ReportUnreadable 1 (log (CouldNotReadFile (exn_text e)) m1)
                 | Inr content \<Rightarrow>
                     (let line_count = length (split_lines content);
                          m2 = log (ContentLines line_count) m1
                      in if is_github_actions env then
                           (case step_summary_write env of
                              Some e \<Rightarrow>
                                sys_exit ReportUnreadable 1
                                  (log (CouldNotReadFile (exn_text e)) m2)
                            | None \<Rightarrow> completed (log WrittenToStepSummary m2))
                         else completed (log AvailableInLocalFile m2))))
      else sys_exit NoReportProduced 1 (log NoRecommendationsFile m))"

text \<open>Lines 319 to 338: the final summary, logged once the stream has ended.\<close>

definition final_summary :: "monitor \<Rightarrow> monitor" where
  "final_summary m =
     (let m1 = log_all [Separator, CompletedSuccessfully, Blank, FinalResults] m;
          m2 = (if tools_used m1 \<noteq> {} then log (ToolsUsedLine (tools_used m1)) m1 else m1);
          m3 = log_all [Blank, AnalysisStatistics] m2
      in log_all (get_summary (tracker m3)) m3)"

text \<open>Lines 214 to 384 of \<^verbatim>\<open>main\<close>.\<close>

definition main :: "environment \<Rightarrow> result" where
  "main env =
     (let m = log_all [Initializing, Separator, RunningAnalysis] init_monitor
      in case connect env of
           Some e \<Rightarrow> handle_exception e m
         | None \<Rightarrow>
             (case query env of
                Some e \<Rightarrow> handle_exception e m
              | None \<Rightarrow>
                  (let m1 = (log_all [Monitoring, RealTimeNote] m)\<lparr>claude_reasoning_count := 0\<rparr>;
                       m2 = process_messages (messages env) m1
                   in case stream_end env of
                        Some e \<Rightarrow> handle_exception e m2
                      | None \<Rightarrow> check_report env (final_summary m2))))"

subsection \<open>The vocabulary of the specification\<close>

text \<open>The events of a response, in the order in which the two nested loops visit them:
  the content blocks of its assistant messages.\<close>

fun events :: "message list \<Rightarrow> block list" where
  "events [] = []"
| "events (AssistantMessage content # msgs) = content @ events msgs"
| "events (UserMessage content # msgs) = events msgs"
| "events (OtherMessage # msgs) = events msgs"

text \<open>
  The categories and the mapping table of the specification (section 4.1), written from
  its words: a tool invocation is classified by its tool name, a tool result with
  \<^verbatim>\<open>is_error = true\<close> is a tool failure, a reasoning text that is not blank is
  reasoning, and every other event has no category.
\<close>

datatype category =
  FileRead | FileWrite | CommandRun | Search | GenericTool | Reasoning | ToolFailure

definition spec_tool_category :: "string \<Rightarrow> category" where
  "spec_tool_category tool_name =
     (if tool_name = ''Read'' then FileRead
      else if tool_name = ''Write'' \<or> tool_name = ''MultiEdit'' \<or> tool_name = ''Edit''
        then FileWrite
      else if tool_name = ''Bash'' then CommandRun
      else if tool_name = ''Grep'' \<or> tool_name = ''Glob'' then Search
      else GenericTool)"

fun spec_classify :: "block \<Rightarrow> category option" where
  "spec_classify (ToolUseBlock tool_name inp) = Some (spec_tool_category tool_name)"
| "spec_classify (ToolResultBlock is_error) =
     (if is_error = BoolValue True then Some ToolFailure else None)"
| "spec_classify (TextBlock text) = (if strip text = [] then None else Some Reasoning)"
| "spec_classify OtherBlock = None"

text \<open>The number of events of a category in a list of events.\<close>

definition count_category :: "category \<Rightarrow> block list \<Rightarrow> nat" where
  "count_category c bs = length (filter (\<lambda>b. spec_classify b = Some c) bs)"

text \<open>The reasoning lines among the logged lines: those of lines 315 and 317.\<close>

fun is_reasoning_line :: "line \<Rightarrow> bool" where
  "is_reasoning_line (Claude t) = True"
| "is_reasoning_line l = False"

text \<open>The lines that a step displays: those that the log of the state after the step
  has beyond the log of the state before it.\<close>

definition displayed :: "monitor \<Rightarrow> monitor \<Rightarrow> line list" where
  "displayed before after = drop (length (logged before)) (logged after)"

text \<open>Some keyword of line 301 to 311 occurs in the lower-cased text.\<close>

definition contains_keyword :: "string \<Rightarrow> bool" where
  "contains_keyword text = list_ex (\<lambda>keyword. sublist keyword (lower text)) important_keywords"

text \<open>The number of reasoning lines in a list of logged lines.\<close>

definition reasoning_lines :: "line list \<Rightarrow> nat" where
  "reasoning_lines ls = length (filter is_reasoning_line ls)"


text \<open>
  The recommendations file can be read: \<^verbatim>\<open>stat()\<close> and \<^verbatim>\<open>read_text()\<close> return, and
  under GitHub Actions the append to the step summary returns as well (the calls of
  lines 342 to 354).
\<close>

definition report_readable :: "environment \<Rightarrow> bool" where
  "report_readable env =
     (case report_stat env of
        Inl e \<Rightarrow> False
      | Inr n \<Rightarrow>
          (case report_read_text env of
             Inl e \<Rightarrow> False
           | Inr content \<Rightarrow>
               (if is_github_actions env then step_summary_write env = None else True)))"

subsection \<open>Sample runs\<close>

text \<open>
  A run in which the connection and the query succeed, the response is empty and no
  recommendations file exists; the other sample runs vary it: a recommendations file
  that exists and cannot be decoded, one that can be read under GitHub Actions, a
  missing CLI and a failing process at the connection, and two responses with the same
  events in different order and multiplicity.
\<close>

definition quiet_env :: environment where
  "quiet_env =
     \<lparr>connect = None, query = None, messages = [], stream_end = None,
      report_exists = False, report_stat = Inl (OtherException ''No such file''),
      report_read_text = Inl (OtherException ''No such file''),
      is_github_actions = False, step_summary_write = None\<rparr>"

definition unreadable_report_env :: environment where
  "unreadable_report_env =
     quiet_env\<lparr>report_exists := True, report_stat := Inr 10,
       report_read_text := Inl (OtherException ''invalid start byte'')\<rparr>"

definition readable_report_env :: environment where
  "readable_report_env =
     quiet_env\<lparr>report_exists := True, report_stat := Inr 10,
       report_read_text := Inr ''# Report'', is_github_actions := True\<rparr>"

definition no_cli_env :: environment where
  "no_cli_env =
     quiet_env\<lparr>connect := Some (CLINotFoundError ''Claude Code not found''),
       messages := [AssistantMessage [ToolUseBlock ''Read'' Map.empty]]\<rparr>"

definition failed_process_env :: environment where
  "failed_process_env =
     quiet_env\<lparr>connect := Some (ProcessError ''exit code 1''),
       messages := [AssistantMessage [ToolUseBlock ''Read'' Map.empty]]\<rparr>"

definition sample_session :: "message list" where
  "sample_session =
     [AssistantMessage [TextBlock ''Let me look'', ToolUseBlock ''Read'' [''file_path'' \<mapsto> ''a.py'']],
      OtherMessage,
      AssistantMessage [TextBlock ''  '', TextBlock ''Next step'', TextBlock ''Done'']]"

definition reordered_session :: "message list" where
  "reordered_session =
     [AssistantMessage [TextBlock ''Done'', TextBlock ''Next step'',
        ToolUseBlock ''Read'' [''file_path'' \<mapsto> ''a.py''], TextBlock ''  ''],
      AssistantMessage [ToolUseBlock ''Read'' [''file_path'' \<mapsto> ''a.py''], TextBlock ''Let me look'']]"

definition sample_env :: environment where
  "sample_env = quiet_env\<lparr>messages := sample_session\<rparr>"





section \<open>Properties\<close>

subsection \<open>Basic facts about the state\<close>

lemma log_fields [simp]:
  "tracker (log l m) = tracker m"
  "tools_used (log l m) = tools_used m"
  "claude_reasoning_count (log l m) = claude_reasoning_count m"
  "logged (log l m) = logged m @ [l]"
  by (simp_all add: log_def)

lemma log_all_fields [simp]:
  "tracker (log_all ls m) = tracker m"
  "tools_used (log_all ls m) = tools_used m"
  "claude_reasoning_count (log_all ls m) = claude_reasoning_count m"
  "logged (log_all ls m) = logged m @ ls"
  by (induction ls arbitrary: m) simp_all

lemma tracker_adds [simp]:
  "files_read (add_file_read p t) = files_read t @ [p]"
  "files_written (add_file_read p t) = files_written t"
  "commands_run (add_file_read p t) = commands_run t"
  "searches_performed (add_file_read p t) = searches_performed t"
  "files_read (add_file_written p t) = files_read t"
  "files_written (add_file_written p t) = files_written t @ [p]"
  "commands_run (add_file_written p t) = commands_run t"
  "searches_performed (add_file_written p t) = searches_performed t"
  "files_read (add_command p t) = files_read t"
  "files_written (add_command p t) = files_written t"
  "commands_run (add_command p t) = commands_run t @ [p]"
  "searches_performed (add_command p t) = searches_performed t"
  "files_read (add_search p t) = files_read t"
  "files_written (add_search p t) = files_written t"
  "commands_run (add_search p t) = commands_run t"
  "searches_performed (add_search p t) = searches_performed t @ [p]"
  by (simp_all add: add_file_read_def add_file_written_def add_command_def add_search_def)

lemma init_tracker_empty:
  "files_read init_tracker = []" "files_written init_tracker = []"
  "commands_run init_tracker = []" "searches_performed init_tracker = []"
  by (simp_all add: init_tracker_def)

lemma displayed_log [simp]: "displayed m (log l m) = [l]"
  by (simp add: displayed_def)

lemma displayed_self [simp]: "displayed m m = []"
  by (simp add: displayed_def)

lemma displayed_tracker_update [simp]:
  "displayed m (m'\<lparr>tracker := t\<rparr>) = displayed m m'"
  by (simp add: displayed_def)

lemma displayed_log_tools [simp]:
  "displayed m (log l (m\<lparr>tools_used := T\<rparr>)) = [l]"
  by (simp add: displayed_def log_def)

lemma displayed_append: "logged m' = logged m @ ls \<Longrightarrow> displayed m m' = ls"
  by (simp add: displayed_def)

lemma process_blocks_append:
  "process_blocks (xs @ ys) m = process_blocks ys (process_blocks xs m)"
  by (induction xs arbitrary: m) simp_all

lemma process_messages_events:
  "process_messages msgs m = process_blocks (events msgs) m"
proof (induction msgs arbitrary: m)
  case Nil
  show ?case by simp
next
  case (Cons msg msgs)
  show ?case by (cases msg) (simp_all add: Cons.IH process_blocks_append)
qed

lemma count_category_Cons:
  "count_category c (b # bs) = (if spec_classify b = Some c then 1 else 0) + count_category c bs"
  by (simp add: count_category_def)

lemma count_category_Nil: "count_category c [] = 0"
  by (simp add: count_category_def)

lemma sys_exit_fields [simp]:
  "outcome (sys_exit oc n m) = oc"
  "exit_status (sys_exit oc n m) = n"
  "final (sys_exit oc n m) = m"
  by (simp_all add: sys_exit_def)

lemma completed_fields [simp]:
  "outcome (completed m) = Success"
  "exit_status (completed m) = 0"
  by (simp_all add: completed_def)

lemma completed_final [simp]:
  "tracker (final (completed m)) = tracker m"
  "tools_used (final (completed m)) = tools_used m"
  by (simp_all add: completed_def)

lemma handle_exception_status:
  "exit_status (handle_exception e m) = 1 \<and> outcome (handle_exception e m) \<noteq> Success"
  by (cases e) simp_all

lemma handle_exception_final:
  "tracker (final (handle_exception e m)) = tracker m"
  "tools_used (final (handle_exception e m)) = tools_used m"
  "claude_reasoning_count (final (handle_exception e m)) = claude_reasoning_count m"
  by (cases e; simp)+

lemma check_report_final:
  "tracker (final (check_report env m)) = tracker m \<and>
   tools_used (final (check_report env m)) = tools_used m"
  by (simp add: check_report_def Let_def handle_exception_final split: sum.splits option.splits)

lemma final_summary_stats:
  "tracker (final_summary m) = tracker m \<and> tools_used (final_summary m) = tools_used m"
  by (simp add: final_summary_def Let_def del: log_all.simps)

lemma main_final_stats:
  assumes "connect env = None" and "query env = None"
  shows "\<exists>m0. tracker m0 = init_tracker \<and> tools_used m0 = {} \<and> claude_reasoning_count m0 = 0 \<and>
    tracker (final (main env)) = tracker (process_messages (messages env) m0) \<and>
    tools_used (final (main env)) = tools_used (process_messages (messages env) m0)"
proof -
  let ?m0 = "(log_all [Monitoring, RealTimeNote]
    (log_all [Initializing, Separator, RunningAnalysis] init_monitor))\<lparr>claude_reasoning_count := 0\<rparr>"
  have "tracker ?m0 = init_tracker" "tools_used ?m0 = {}" "claude_reasoning_count ?m0 = 0"
    by (simp_all add: init_monitor_def del: log_all.simps)
  moreover have "tracker (final (main env)) = tracker (process_messages (messages env) ?m0) \<and>
    tools_used (final (main env)) = tools_used (process_messages (messages env) ?m0)"
    using assms
    by (cases "stream_end env")
      (simp_all add: main_def Let_def handle_exception_final check_report_final
        final_summary_stats del: log_all.simps)
  ultimately show ?thesis by blast
qed

subsection \<open>The counting invariant\<close>

lemma files_read_step:
  "length (files_read (tracker (process_block b m))) =
     length (files_read (tracker m)) + (if spec_classify b = Some FileRead then 1 else 0)"
  by (cases b) (auto simp: Let_def spec_tool_category_def)

lemma files_written_step:
  "length (files_written (tracker (process_block b m))) =
     length (files_written (tracker m)) + (if spec_classify b = Some FileWrite then 1 else 0)"
  by (cases b) (auto simp: Let_def spec_tool_category_def)

lemma commands_run_step:
  "length (commands_run (tracker (process_block b m))) =
     length (commands_run (tracker m)) + (if spec_classify b = Some CommandRun then 1 else 0)"
  by (cases b) (auto simp: Let_def spec_tool_category_def)

lemma searches_performed_step:
  "length (searches_performed (tracker (process_block b m))) =
     length (searches_performed (tracker m)) + (if spec_classify b = Some Search then 1 else 0)"
  by (cases b) (auto simp: Let_def spec_tool_category_def)

lemma files_read_blocks:
  "length (files_read (tracker (process_blocks bs m))) =
     length (files_read (tracker m)) + count_category FileRead bs"
  by (induction bs arbitrary: m) (simp_all add: count_category_Nil count_category_Cons files_read_step)

lemma files_written_blocks:
  "length (files_written (tracker (process_blocks bs m))) =
     length (files_written (tracker m)) + count_category FileWrite bs"
  by (induction bs arbitrary: m) (simp_all add: count_category_Nil count_category_Cons files_written_step)

lemma commands_run_blocks:
  "length (commands_run (tracker (process_blocks bs m))) =
     length (commands_run (tracker m)) + count_category CommandRun bs"
  by (induction bs arbitrary: m) (simp_all add: count_category_Nil count_category_Cons commands_run_step)

lemma searches_performed_blocks:
  "length (searches_performed (tracker (process_blocks bs m))) =
     length (searches_performed (tracker m)) + count_category Search bs"
  by (induction bs arbitrary: m) (simp_all add: count_category_Nil count_category_Cons searches_performed_step)

text \<open>
  Claim C2. For every finite sequence of messages that the monitor processes, from any
  state, each of \<^verbatim>\<open>files_read\<close>, \<^verbatim>\<open>files_written\<close>, \<^verbatim>\<open>commands_run\<close> and
  \<^verbatim>\<open>searches_performed\<close> grows by the number of events that the specification
  classifies as \<open>FileRead\<close>, \<open>FileWrite\<close>, \<open>CommandRun\<close> and \<open>Search\<close>. In a run
  whose connection and query succeed, the final lengths are these numbers for the events
  of the response, however the stream and the check of the report end.
\<close>

theorem counting_invariant:
  "length (files_read (tracker (process_messages msgs m))) =
     length (files_read (tracker m)) + count_category FileRead (events msgs) \<and>
   length (files_written (tracker (process_messages msgs m))) =
     length (files_written (tracker m)) + count_category FileWrite (events msgs) \<and>
   length (commands_run (tracker (process_messages msgs m))) =
     length (commands_run (tracker m)) + count_category CommandRun (events msgs) \<and>
   length (searches_performed (tracker (process_messages msgs m))) =
     length (searches_performed (tracker m)) + count_category Search (events msgs) \<and>
   (connect env = None \<and> query env = None \<longrightarrow>
     length (files_read (tracker (final (main env)))) =
       count_category FileRead (events (messages env)) \<and>
     length (files_written (tracker (final (main env)))) =
       count_category FileWrite (events (messages env)) \<and>
     length (commands_run (tracker (final (main env)))) =
       count_category CommandRun (events (messages env)) \<and>
     length (searches_performed (tracker (final (main env)))) =
       count_category Search (events (messages env)))"
proof -
  have growth: "length (files_read (tracker (process_messages msgs m))) =
      length (files_read (tracker m)) + count_category FileRead (events msgs) \<and>
    length (files_written (tracker (process_messages msgs m))) =
      length (files_written (tracker m)) + count_category FileWrite (events msgs) \<and>
    length (commands_run (tracker (process_messages msgs m))) =
      length (commands_run (tracker m)) + count_category CommandRun (events msgs) \<and>
    length (searches_performed (tracker (process_messages msgs m))) =
      length (searches_performed (tracker m)) + count_category Search (events msgs)"
    for msgs m
    by (simp add: process_messages_events files_read_blocks files_written_blocks
        commands_run_blocks searches_performed_blocks)
  have run: "length (files_read (tracker (final (main env)))) =
       count_category FileRead (events (messages env)) \<and>
     length (files_written (tracker (final (main env)))) =
       count_category FileWrite (events (messages env)) \<and>
     length (commands_run (tracker (final (main env)))) =
       count_category CommandRun (events (messages env)) \<and>
     length (searches_performed (tracker (final (main env)))) =
       count_category Search (events (messages env))"
    if "connect env = None" "query env = None"
  proof -
    from main_final_stats [OF that] obtain m0 where
      m0: "tracker m0 = init_tracker"
        "tracker (final (main env)) = tracker (process_messages (messages env) m0)"
      by blast
    show ?thesis
      unfolding m0(2) using growth [of "messages env" m0]
      by (simp add: m0(1) init_tracker_empty)
  qed
  from growth run show ?thesis by blast
qed

theorem counting_invariant_witness:
  "connect sample_env = None \<and> query sample_env = None \<and>
   count_category FileRead (events (messages sample_env)) = 1 \<and>
   count_category FileWrite (events (messages sample_env)) = 0 \<and>
   count_category CommandRun (events (messages sample_env)) = 0 \<and>
   count_category Search (events (messages sample_env)) = 0 \<and>
   length (files_read (tracker (final (main sample_env)))) = 1 \<and>
   length (files_written (tracker (final (main sample_env)))) = 0 \<and>
   length (commands_run (tracker (final (main sample_env)))) = 0 \<and>
   length (searches_performed (tracker (final (main sample_env)))) = 0"
proof -
  have h: "connect sample_env = None \<and> query sample_env = None"
    by (simp add: sample_env_def quiet_env_def)
  have c: "count_category FileRead (events (messages sample_env)) = 1"
    "count_category FileWrite (events (messages sample_env)) = 0"
    "count_category CommandRun (events (messages sample_env)) = 0"
    "count_category Search (events (messages sample_env)) = 0"
    by code_simp+
  from counting_invariant [of _ _ sample_env] h
  have "length (files_read (tracker (final (main sample_env)))) =
       count_category FileRead (events (messages sample_env)) \<and>
     length (files_written (tracker (final (main sample_env)))) =
       count_category FileWrite (events (messages sample_env)) \<and>
     length (commands_run (tracker (final (main sample_env)))) =
       count_category CommandRun (events (messages sample_env)) \<and>
     length (searches_performed (tracker (final (main sample_env)))) =
       count_category Search (events (messages sample_env))"
    by blast
  with h c show ?thesis by simp
qed

subsection \<open>The tools used\<close>

lemma tools_used_step:
  "tools_used (process_block b m) =
     tools_used m \<union> {n. \<exists>inp. b = ToolUseBlock n inp}"
  by (cases b) (auto simp: Let_def)

lemma tools_used_blocks:
  "tools_used (process_blocks bs m) =
     tools_used m \<union> {n. \<exists>inp. ToolUseBlock n inp \<in> set bs}"
  by (induction bs arbitrary: m) (auto simp: tools_used_step)

text \<open>
  Claim C5. After processing any finite sequence of messages, \<^verbatim>\<open>tools_used\<close> is its
  former value together with the set of the tool names of all tool invocations among the
  events, whether the monitor recognises the name or not. The set depends on the set of
  events only: two sequences with the same events, in any order and with any
  repetition, give the same \<^verbatim>\<open>tools_used\<close>. In a run whose connection and query
  succeed, the final \<^verbatim>\<open>tools_used\<close> is the set of the tool names of the response.
\<close>

theorem tools_used_distinct_names:
  "tools_used (process_messages msgs m) =
     tools_used m \<union> {n. \<exists>inp. ToolUseBlock n inp \<in> set (events msgs)} \<and>
   (set (events msgs) = set (events msgs') \<longrightarrow>
      tools_used (process_messages msgs m) = tools_used (process_messages msgs' m)) \<and>
   (connect env = None \<and> query env = None \<longrightarrow>
      tools_used (final (main env)) = {n. \<exists>inp. ToolUseBlock n inp \<in> set (events (messages env))})"
proof -
  have a: "tools_used (process_messages msgs m) =
      tools_used m \<union> {n. \<exists>inp. ToolUseBlock n inp \<in> set (events msgs)}" for msgs m
    by (simp add: process_messages_events tools_used_blocks)
  have b: "tools_used (final (main env)) = {n. \<exists>inp. ToolUseBlock n inp \<in> set (events (messages env))}"
    if "connect env = None" "query env = None"
  proof -
    from main_final_stats [OF that] obtain m0 where
      m0: "tools_used m0 = {}"
        "tools_used (final (main env)) = tools_used (process_messages (messages env) m0)"
      by blast
    show ?thesis
      unfolding m0(2) a by (simp add: m0(1))
  qed
  show ?thesis
    using b by (simp add: a)
qed

theorem tools_used_distinct_names_witness:
  "set (events sample_session) = set (events reordered_session) \<and>
   tools_used (process_messages sample_session init_monitor) =
     tools_used (process_messages reordered_session init_monitor) \<and>
   tools_used (process_messages reordered_session init_monitor) = {''Read''} \<and>
   connect sample_env = None \<and> query sample_env = None \<and>
   tools_used (final (main sample_env)) = {''Read''}"
proof -
  have h: "connect sample_env = None \<and> query sample_env = None"
    by (simp add: sample_env_def quiet_env_def)
  have s: "set (events sample_session) = set (events reordered_session)"
    by (auto simp: sample_session_def reordered_session_def)
  have e: "{n. \<exists>inp. ToolUseBlock n inp \<in> set (events reordered_session)} = {''Read''}"
    by (auto simp: reordered_session_def)
  have m: "messages sample_env = sample_session"
    by (simp add: sample_env_def)
  note t = tools_used_distinct_names [of sample_session init_monitor reordered_session sample_env]
  from t s have 1: "tools_used (process_messages sample_session init_monitor) =
      tools_used (process_messages reordered_session init_monitor)"
    by blast
  from tools_used_distinct_names [of reordered_session init_monitor]
  have 2: "tools_used (process_messages reordered_session init_monitor) = {''Read''}"
    by (simp add: e init_monitor_def)
  from t h have 3: "tools_used (final (main sample_env)) =
      {n. \<exists>inp. ToolUseBlock n inp \<in> set (events (messages sample_env))}"
    by blast
  have 4: "tools_used (final (main sample_env)) = {''Read''}"
    unfolding 3 m s e ..
  from h s 1 2 4 show ?thesis by simp
qed

subsection \<open>The command of a Bash invocation\<close>

text \<open>
  Claim C1, amended. For a tool invocation named \<^verbatim>\<open>Bash\<close>, the value appended to
  \<^verbatim>\<open>commands_run\<close> is the first 100 characters of the \<^verbatim>\<open>command\<close> parameter (of the
  empty string when the parameter is absent): the same truncated value that the
  displayed line shows before its three dots. It is the full command exactly when the
  command has at most 100 characters.
\<close>

theorem bash_command_recorded_truncated:
  "commands_run (tracker (process_block (ToolUseBlock ''Bash'' inp) m)) =
     commands_run (tracker m) @ [take 100 (dict_get inp ''command'' '''')] \<and>
   displayed m (process_block (ToolUseBlock ''Bash'' inp) m) =
     [Running (take 100 (dict_get inp ''command'' '''') @ ''...'')] \<and>
   (take 100 (dict_get inp ''command'' '''') = dict_get inp ''command'' '''' \<longleftrightarrow>
      length (dict_get inp ''command'' '''') \<le> 100)"
  by (simp add: Let_def)

text \<open>
  The claim as stated fails: for a command of 150 characters, \<^verbatim>\<open>commands_run\<close> holds
  its first 100 characters, not the 150.
\<close>

theorem bash_command_counterexample:
  "commands_run (tracker (process_block
      (ToolUseBlock ''Bash'' [''command'' \<mapsto> replicate 150 CHR ''x'']) init_monitor)) =
     [replicate 100 CHR ''x''] \<and>
   commands_run (tracker (process_block
      (ToolUseBlock ''Bash'' [''command'' \<mapsto> replicate 150 CHR ''x'']) init_monitor)) \<noteq>
     [replicate 150 CHR ''x'']"
  by (simp add: Let_def dict_get_def init_monitor_def init_tracker_def)

subsection \<open>Tool results\<close>

text \<open>
  Claim C10. A tool result without the attribute \<^verbatim>\<open>is_error\<close> changes nothing: no
  failure line, no change of the statistics, and no error.
\<close>

theorem tool_result_without_is_error:
  "process_block (ToolResultBlock Absent) m = m"
  by simp

subsection \<open>Unrecognised tools\<close>

text \<open>
  Claim C9. A tool invocation whose name is not in the table (its category is
  \<open>GenericTool\<close>) adds the name to \<^verbatim>\<open>tools_used\<close>, leaves the whole tracker as it
  is, so none of the four sequences grows, and logs the generic line.
\<close>

theorem unrecognized_tool_frame:
  "spec_tool_category tool_name = GenericTool \<Longrightarrow>
     tools_used (process_block (ToolUseBlock tool_name inp) m) = insert tool_name (tools_used m) \<and>
     tracker (process_block (ToolUseBlock tool_name inp) m) = tracker m \<and>
     displayed m (process_block (ToolUseBlock tool_name inp) m) = [UsingTool tool_name]"
  by (auto simp: spec_tool_category_def Let_def split: if_splits)

theorem unrecognized_tool_frame_witness:
  "spec_tool_category ''TodoWrite'' = GenericTool \<and>
   tools_used (process_block (ToolUseBlock ''TodoWrite'' Map.empty) init_monitor) = {''TodoWrite''} \<and>
   tracker (process_block (ToolUseBlock ''TodoWrite'' Map.empty) init_monitor) = init_tracker \<and>
   displayed init_monitor (process_block (ToolUseBlock ''TodoWrite'' Map.empty) init_monitor) =
     [UsingTool ''TodoWrite'']"
proof -
  have a: "spec_tool_category ''TodoWrite'' = GenericTool"
    by (simp add: spec_tool_category_def)
  show ?thesis
    using a unrecognized_tool_frame [OF a, of Map.empty init_monitor]
    by (simp add: init_monitor_def)
qed

subsection \<open>Reasoning texts\<close>

text \<open>
  Claim C8. A reasoning text that is empty or consists of white space only changes
  nothing: no line is logged, the statistics stay, and the reasoning count is not
  incremented.
\<close>

theorem blank_reasoning_ignored:
  "strip text = [] \<Longrightarrow> process_block (TextBlock text) m = m"
  by simp

theorem blank_reasoning_ignored_witness:
  "strip [CHR 0x20, CHR 0x09, CHR 0x0A] = [] \<and>
   process_block (TextBlock [CHR 0x20, CHR 0x09, CHR 0x0A]) init_monitor = init_monitor \<and>
   strip [] = [] \<and> process_block (TextBlock []) init_monitor = init_monitor"
proof -
  have a: "strip [CHR 0x20, CHR 0x09, CHR 0x0A] = []"
    by (simp add: strip_def isspace_def)
  have b: "strip [] = []"
    by (simp add: strip_def)
  show ?thesis
    using a b blank_reasoning_ignored [OF a, of init_monitor]
      blank_reasoning_ignored [OF b, of init_monitor]
    by simp
qed

lemma show_reasoning_iff:
  "show_reasoning n text \<longleftrightarrow> even n \<or> contains_keyword text"
  by (simp add: show_reasoning_def contains_keyword_def even_iff_mod_2_eq_zero)

lemma isspace_lower_char: "isspace c \<Longrightarrow> lower_char c = c"
  by (auto simp: isspace_def lower_char_def Let_def)

lemma sublist_dropWhile:
  assumes "sublist u xs" and "u \<noteq> []" and "\<not> P (hd u)"
  shows "sublist u (dropWhile P xs)"
proof -
  from assms(1) obtain ps ss where xs: "xs = ps @ u @ ss"
    by (auto simp: sublist_def)
  from assms(2,3) have u: "dropWhile P (u @ ss) = u @ ss"
    by (cases u) simp_all
  show ?thesis
  proof (cases "\<forall>x\<in>set ps. P x")
    case True
    then have "dropWhile P xs = u @ ss"
      using u by (simp add: xs dropWhile_append)
    then show ?thesis by simp
  next
    case False
    then have "dropWhile P xs = dropWhile P ps @ u @ ss"
      by (auto simp: xs dropWhile_append)
    then show ?thesis by simp
  qed
qed

lemma sublist_strip:
  assumes "sublist u text" and "u \<noteq> []" and "\<not> isspace (hd u)" and "\<not> isspace (last u)"
  shows "sublist u (strip text)"
proof -
  have "sublist u (dropWhile isspace text)"
    using assms(1-3) by (rule sublist_dropWhile)
  then have "sublist (rev u) (rev (dropWhile isspace text))"
    by simp
  moreover have "rev u \<noteq> []" and "\<not> isspace (hd (rev u))"
    using assms(2,4) by (simp_all add: hd_rev)
  ultimately have "sublist (rev u) (dropWhile isspace (rev (dropWhile isspace text)))"
    by (rule sublist_dropWhile)
  then show ?thesis
    unfolding strip_def by (simp add: sublist_rev_left)
qed

lemma strip_sublist: "sublist (strip text) text"
proof -
  have a: "sublist (dropWhile P xs) xs" for P and xs :: string
    by (metis sublist_append_leftI takeWhile_dropWhile_id)
  have "sublist (dropWhile isspace (rev (dropWhile isspace text))) (rev (dropWhile isspace text))"
    by (rule a)
  then have "sublist (strip text) (dropWhile isspace text)"
    unfolding strip_def by (simp add: sublist_rev_left)
  then show ?thesis
    using a sublist_order.order_trans by blast
qed

lemma lower_not_space:
  assumes "lower_char c = d" and "\<not> isspace d"
  shows "\<not> isspace c"
  using assms isspace_lower_char by auto

lemma keyword_chars: "k \<in> set important_keywords \<Longrightarrow> k \<noteq> [] \<and> \<not> isspace (hd k) \<and> \<not> isspace (last k)"
  by (auto simp: important_keywords_def isspace_def)

lemma sublist_lower_strip:
  assumes "k \<in> set important_keywords"
  shows "sublist k (lower (strip text)) \<longleftrightarrow> sublist k (lower text)"
proof
  assume "sublist k (lower (strip text))"
  moreover have "sublist (lower (strip text)) (lower text)"
    unfolding lower_def by (rule map_mono_sublist) (rule strip_sublist)
  ultimately show "sublist k (lower text)"
    using sublist_order.order_trans by blast
next
  assume "sublist k (lower text)"
  then obtain u where u: "sublist u text" "k = map lower_char u"
    unfolding lower_def using sublist_map_rightE by blast
  from keyword_chars [OF assms] have k: "k \<noteq> []" "\<not> isspace (hd k)" "\<not> isspace (last k)"
    by simp_all
  from k(1) u(2) have ne: "u \<noteq> []" by auto
  have "hd k = lower_char (hd u)" "last k = lower_char (last u)"
    using ne u(2) by (simp_all add: hd_map last_map)
  then have "\<not> isspace (hd u)" "\<not> isspace (last u)"
    using k(2,3) lower_not_space by metis+
  then have "sublist u (strip text)"
    using u(1) ne sublist_strip by blast
  then show "sublist k (lower (strip text))"
    unfolding lower_def u(2) by (rule map_mono_sublist)
qed

lemma contains_keyword_strip: "contains_keyword (strip text) \<longleftrightarrow> contains_keyword text"
  by (auto simp: contains_keyword_def list_ex_iff sublist_lower_strip)

lemma contains_keyword_nonempty: "contains_keyword t \<Longrightarrow> t \<noteq> []"
  by (auto simp: contains_keyword_def important_keywords_def lower_def)

lemma complete_is_keyword: "sublist ''complete'' (lower t) \<Longrightarrow> contains_keyword t"
  unfolding contains_keyword_def important_keywords_def list_ex_iff by simp

lemma text_block_step:
  assumes "strip btext \<noteq> []"
  shows "claude_reasoning_count (process_block (TextBlock btext) m) = claude_reasoning_count m + 1"
    and "displayed m (process_block (TextBlock btext) m) =
      (if even (claude_reasoning_count m + 1) \<or> contains_keyword btext
       then [if length (strip btext) > 100 then Claude (take 100 (strip btext) @ ''...'')
             else Claude (strip btext)]
       else [])"
  using assms
  by (simp_all add: Let_def show_reasoning_iff contains_keyword_strip displayed_def log_def)

lemma logged_step: "logged (process_block b m) = logged m @ displayed m (process_block b m)"
proof -
  have "\<exists>ls. logged (process_block b m) = logged m @ ls"
    by (cases b) (auto simp: Let_def log_def)
  then obtain ls where ls: "logged (process_block b m) = logged m @ ls" ..
  then show ?thesis
    by (simp add: displayed_append [OF ls])
qed

lemma displayed_Cons:
  "displayed m (process_blocks (b # bs) m) =
     displayed m (process_block b m) @
     displayed (process_block b m) (process_blocks bs (process_block b m)) \<and>
   logged (process_blocks (b # bs) m) = logged m @ displayed m (process_blocks (b # bs) m)"
proof (induction bs arbitrary: b m)
  case Nil
  have "logged (process_block b m) = logged m @ displayed m (process_block b m)"
    by (rule logged_step)
  then show ?case by simp
next
  case (Cons c bs)
  let ?m = "process_block b m"
  have 1: "logged ?m = logged m @ displayed m ?m"
    by (rule logged_step)
  have 2: "logged (process_blocks (c # bs) ?m) = logged ?m @ displayed ?m (process_blocks (c # bs) ?m)"
    using Cons.IH [where b = c and m = ?m] by simp
  have 3: "logged (process_blocks (c # bs) ?m) =
      logged m @ (displayed m ?m @ displayed ?m (process_blocks (c # bs) ?m))"
    by (subst 2, subst 1) simp
  have 4: "displayed m (process_blocks (c # bs) ?m) =
      displayed m ?m @ displayed ?m (process_blocks (c # bs) ?m)"
    by (rule displayed_append [OF 3])
  have 5: "logged (process_blocks (c # bs) ?m) = logged m @ displayed m (process_blocks (c # bs) ?m)"
    by (subst 4) (rule 3)
  from 4 5 show ?case by simp
qed

lemma tool_use_displays_no_reasoning:
  "filter is_reasoning_line (displayed m (process_block (ToolUseBlock n inp) m)) = []"
  by (simp add: Let_def)

lemma text_block_reasoning_lines:
  assumes "strip t \<noteq> []"
  shows "reasoning_lines (displayed m (process_block (TextBlock t) m)) =
     (if even (claude_reasoning_count (process_block (TextBlock t) m)) \<or> contains_keyword t
      then 1 else 0)"
proof -
  note s = text_block_step [OF assms, of m]
  show ?thesis
    unfolding s by (simp add: reasoning_lines_def)
qed

lemma tool_category_not_reasoning: "spec_tool_category n \<noteq> Reasoning"
  by (simp add: spec_tool_category_def)

lemma tool_use_keeps_count:
  "claude_reasoning_count (process_block (ToolUseBlock n inp) m) = claude_reasoning_count m"
  by (simp add: Let_def)

lemma reasoning_lines_step:
  "reasoning_lines (displayed m (process_block b m)) =
     (if spec_classify b = Some Reasoning \<and>
         (even (claude_reasoning_count (process_block b m)) \<or>
          (\<exists>t. b = TextBlock t \<and> contains_keyword t))
      then 1 else 0)"
proof (cases b)
  case (TextBlock t)
  show ?thesis
  proof (cases "strip t = []")
    case True
    with TextBlock show ?thesis by (simp add: reasoning_lines_def)
  next
    case False
    have "spec_classify (TextBlock t) = Some Reasoning"
      using False by simp
    then show ?thesis
      unfolding TextBlock using text_block_reasoning_lines [OF False, of m]
      by (simp del: process_block.simps)
  qed
next
  case (ToolUseBlock n inp)
  have "spec_classify b \<noteq> Some Reasoning"
    unfolding ToolUseBlock by (simp add: spec_tool_category_def)
  then show ?thesis
    unfolding ToolUseBlock reasoning_lines_def
    by (simp del: process_block.simps add: tool_use_displays_no_reasoning)
next
  case (ToolResultBlock e)
  then show ?thesis by (simp add: reasoning_lines_def)
next
  case OtherBlock
  then show ?thesis by (simp add: reasoning_lines_def)
qed

lemma count_step:
  "claude_reasoning_count (process_block b m) =
     claude_reasoning_count m + (if spec_classify b = Some Reasoning then 1 else 0)"
proof (cases b)
  case (ToolUseBlock n inp)
  show ?thesis
    unfolding ToolUseBlock tool_use_keeps_count
    by (simp add: tool_category_not_reasoning)
next
  case (ToolResultBlock e)
  then show ?thesis by simp
next
  case (TextBlock t)
  then show ?thesis by (simp add: Let_def)
next
  case OtherBlock
  then show ?thesis by simp
qed

lemma count_blocks:
  "claude_reasoning_count (process_blocks bs m) =
     claude_reasoning_count m + count_category Reasoning bs"
  by (induction bs arbitrary: m) (simp_all add: count_category_Nil count_category_Cons count_step)

lemma sampling_blocks:
  assumes "\<forall>t. TextBlock t \<in> set bs \<longrightarrow> \<not> contains_keyword t"
  shows "reasoning_lines (displayed m (process_blocks bs m)) + claude_reasoning_count m div 2 =
     (claude_reasoning_count m + count_category Reasoning bs) div 2"
  using assms
proof (induction bs arbitrary: m)
  case Nil
  show ?case by (simp add: count_category_Nil reasoning_lines_def)
next
  case (Cons b bs)
  let ?m = "process_block b m"
  have nokw: "\<not> (\<exists>t. b = TextBlock t \<and> contains_keyword t)"
    using Cons.prems by auto
  have ih: "reasoning_lines (displayed ?m (process_blocks bs ?m)) + claude_reasoning_count ?m div 2 =
     (claude_reasoning_count ?m + count_category Reasoning bs) div 2"
    using Cons.prems by (intro Cons.IH) auto
  have split: "reasoning_lines (displayed m (process_blocks (b # bs) m)) =
      reasoning_lines (displayed m ?m) + reasoning_lines (displayed ?m (process_blocks bs ?m))"
    by (subst conjunct1 [OF displayed_Cons]) (simp add: reasoning_lines_def)
  show ?case
  proof (cases "spec_classify b = Some Reasoning")
    case False
    then have "reasoning_lines (displayed m ?m) = 0" "claude_reasoning_count ?m = claude_reasoning_count m"
      by (simp_all add: reasoning_lines_step count_step)
    with ih split False show ?thesis
      by (simp add: count_category_Cons)
  next
    case True
    then have c: "claude_reasoning_count ?m = claude_reasoning_count m + 1"
      by (simp add: count_step)
    have r: "reasoning_lines (displayed m ?m) = (if even (claude_reasoning_count m + 1) then 1 else 0)"
      unfolding reasoning_lines_step c using True nokw by auto
    have "reasoning_lines (displayed m ?m) + claude_reasoning_count m div 2 =
        (claude_reasoning_count m + 1) div 2"
      unfolding r by (cases "even (claude_reasoning_count m)") auto
    with ih split True c show ?thesis
      by (simp add: count_category_Cons)
  qed
qed

text \<open>
  Claim C4. A reasoning text that is not blank increments the reasoning count, which
  is its ordinal, and is displayed if and only if this ordinal is even or the lower-cased
  text contains one of the nine keywords. Hence, from the count 0 of a new session, a
  response whose reasoning texts contain no keyword displays exactly half (rounded down)
  of its non-blank reasoning texts; and a text with an occurrence of \<^verbatim>\<open>complete\<close> in
  any case is displayed at every ordinal.
\<close>

theorem reasoning_display_rule:
  "(strip btext \<noteq> [] \<longrightarrow>
      claude_reasoning_count (process_block (TextBlock btext) m) = claude_reasoning_count m + 1 \<and>
      displayed m (process_block (TextBlock btext) m) =
        (if even (claude_reasoning_count (process_block (TextBlock btext) m)) \<or>
            contains_keyword btext
         then [if length (strip btext) > 100 then Claude (take 100 (strip btext) @ ''...'')
               else Claude (strip btext)]
         else [])) \<and>
   (claude_reasoning_count m = 0 \<and> (\<forall>t. TextBlock t \<in> set (events msgs) \<longrightarrow> \<not> contains_keyword t) \<longrightarrow>
      reasoning_lines (displayed m (process_messages msgs m)) =
        count_category Reasoning (events msgs) div 2) \<and>
   (sublist u btext \<and> lower u = ''complete'' \<longrightarrow>
      displayed m (process_block (TextBlock btext) m) =
        [if length (strip btext) > 100 then Claude (take 100 (strip btext) @ ''...'')
         else Claude (strip btext)])"
proof (intro conjI impI)
  assume ne: "strip btext \<noteq> []"
  show "claude_reasoning_count (process_block (TextBlock btext) m) = claude_reasoning_count m + 1"
    using ne by (rule text_block_step)
  then show "displayed m (process_block (TextBlock btext) m) =
        (if even (claude_reasoning_count (process_block (TextBlock btext) m)) \<or>
            contains_keyword btext
         then [if length (strip btext) > 100 then Claude (take 100 (strip btext) @ ''...'')
               else Claude (strip btext)]
         else [])"
    using text_block_step(2) [OF ne, of m] by simp
next
  assume "claude_reasoning_count m = 0 \<and>
    (\<forall>t. TextBlock t \<in> set (events msgs) \<longrightarrow> \<not> contains_keyword t)"
  then show "reasoning_lines (displayed m (process_messages msgs m)) =
        count_category Reasoning (events msgs) div 2"
    using sampling_blocks [of "events msgs" m] by (simp add: process_messages_events)
next
  assume a: "sublist u btext \<and> lower u = ''complete''"
  then have "sublist (lower u) (lower btext)"
    unfolding lower_def by (intro map_mono_sublist) simp
  with a have "sublist ''complete'' (lower btext)"
    by simp
  then have kw: "contains_keyword btext"
    by (rule complete_is_keyword)
  then have "contains_keyword (strip btext)"
    by (simp add: contains_keyword_strip)
  then have ne: "strip btext \<noteq> []"
    by (rule contains_keyword_nonempty)
  show "displayed m (process_block (TextBlock btext) m) =
        [if length (strip btext) > 100 then Claude (take 100 (strip btext) @ ''...'')
         else Claude (strip btext)]"
    using text_block_step(2) [OF ne, of m] kw by (simp del: process_block.simps)
qed

theorem reasoning_display_rule_witness:
  "strip ''COMPLETE!'' \<noteq> [] \<and>
   sublist ''COMPLETE'' ''COMPLETE!'' \<and> lower ''COMPLETE'' = ''complete'' \<and>
   claude_reasoning_count init_monitor = 0 \<and>
   claude_reasoning_count (process_block (TextBlock ''COMPLETE!'') init_monitor) = 1 \<and>
   displayed init_monitor (process_block (TextBlock ''COMPLETE!'') init_monitor) =
     [Claude ''COMPLETE!''] \<and>
   \<not> contains_keyword ''Let me look'' \<and> \<not> contains_keyword ''  '' \<and>
   \<not> contains_keyword ''Next step'' \<and> \<not> contains_keyword ''Done'' \<and>
   count_category Reasoning (events sample_session) = 3 \<and>
   reasoning_lines (displayed init_monitor (process_messages sample_session init_monitor)) = 1"
proof -
  have s: "strip ''COMPLETE!'' = ''COMPLETE!''"
    by code_simp
  have u: "sublist ''COMPLETE'' ''COMPLETE!'' \<and> lower ''COMPLETE'' = ''complete''"
    by code_simp
  have z: "claude_reasoning_count init_monitor = 0"
    by (simp add: init_monitor_def)
  have k: "\<not> contains_keyword ''Let me look''" "\<not> contains_keyword ''  ''"
    "\<not> contains_keyword ''Next step''" "\<not> contains_keyword ''Done''"
    by code_simp+
  have n: "count_category Reasoning (events sample_session) = 3"
    by code_simp
  have nokw: "\<forall>t. TextBlock t \<in> set (events sample_session) \<longrightarrow> \<not> contains_keyword t"
    using k by (auto simp: sample_session_def)
  note t = reasoning_display_rule
    [of "''COMPLETE!''" init_monitor sample_session "''COMPLETE''"]
  from t s have 1:
    "claude_reasoning_count (process_block (TextBlock ''COMPLETE!'') init_monitor) =
       claude_reasoning_count init_monitor + 1"
    by (simp del: process_block.simps)
  from t u have 2: "displayed init_monitor (process_block (TextBlock ''COMPLETE!'') init_monitor) =
      [if length (strip ''COMPLETE!'') > 100 then Claude (take 100 (strip ''COMPLETE!'') @ ''...'')
       else Claude (strip ''COMPLETE!'')]"
    by blast
  from t z nokw have 3:
    "reasoning_lines (displayed init_monitor (process_messages sample_session init_monitor)) =
       count_category Reasoning (events sample_session) div 2"
    by blast
  have 4: "displayed init_monitor (process_block (TextBlock ''COMPLETE!'') init_monitor) =
     [Claude ''COMPLETE!'']"
    unfolding 2 s by simp
  from s u z k n 1 3 4 show ?thesis
    by (simp del: process_block.simps)
qed

subsection \<open>Tool results in the stream\<close>





lemma tool_result_step:
  "process_block (ToolResultBlock e) s =
     (if e = BoolValue True then log ToolExecutionFailed s else s)"
  by simp

















subsection \<open>The outcome of a run\<close>

lemma check_report_missing:
  "\<not> report_exists env \<Longrightarrow>
     outcome (check_report env m) = NoReportProduced \<and> exit_status (check_report env m) = 1"
  by (simp add: check_report_def)

lemma check_report_readable:
  "report_exists env \<Longrightarrow> report_readable env \<Longrightarrow>
     outcome (check_report env m) = Success \<and> exit_status (check_report env m) = 0"
  by (auto simp: check_report_def report_readable_def Let_def split: sum.splits if_splits)

lemma check_report_unreadable:
  "report_exists env \<Longrightarrow> \<not> report_readable env \<Longrightarrow>
     outcome (check_report env m) \<noteq> Success \<and> exit_status (check_report env m) = 1"
  by (auto simp: check_report_def report_readable_def Let_def handle_exception_status
      split: sum.splits if_splits option.splits)

lemma main_streamed:
  "connect env = None \<Longrightarrow> query env = None \<Longrightarrow> stream_end env = None \<Longrightarrow>
     \<exists>m. main env = check_report env m"
  by (simp add: main_def Let_def del: log_all.simps) blast

text \<open>
  Claim C3, amended. If the connection and the query succeed and the stream ends
  normally, then: if the recommendations file does not exist, the outcome is
  \<open>NoReportProduced\<close> and the exit status is 1; if it exists and can be read, the
  outcome is \<open>Success\<close> and the exit status is 0; if it exists and cannot be read, the
  outcome is not \<open>Success\<close> and the exit status is 1.
\<close>

theorem report_decides_outcome:
  assumes "connect env = None" and "query env = None" and "stream_end env = None"
  shows "(if \<not> report_exists env
          then outcome (main env) = NoReportProduced \<and> exit_status (main env) = 1
          else if report_readable env
          then outcome (main env) = Success \<and> exit_status (main env) = 0
          else outcome (main env) \<noteq> Success \<and> exit_status (main env) = 1)"
proof -
  from assms obtain m where m: "main env = check_report env m"
    using main_streamed by blast
  show ?thesis
    unfolding m
    using check_report_missing [of env m] check_report_readable [of env m]
      check_report_unreadable [of env m]
    by simp
qed

theorem report_decides_outcome_witness:
  "connect quiet_env = None \<and> query quiet_env = None \<and> stream_end quiet_env = None \<and>
   \<not> report_exists quiet_env \<and>
   outcome (main quiet_env) = NoReportProduced \<and> exit_status (main quiet_env) = 1 \<and>
   connect readable_report_env = None \<and> query readable_report_env = None \<and>
   stream_end readable_report_env = None \<and>
   report_exists readable_report_env \<and> report_readable readable_report_env \<and>
   outcome (main readable_report_env) = Success \<and> exit_status (main readable_report_env) = 0 \<and>
   report_exists unreadable_report_env \<and> \<not> report_readable unreadable_report_env \<and>
   outcome (main unreadable_report_env) \<noteq> Success \<and>
   exit_status (main unreadable_report_env) = 1"
proof -
  have q: "connect quiet_env = None" "query quiet_env = None" "stream_end quiet_env = None"
    "\<not> report_exists quiet_env"
    by (simp_all add: quiet_env_def)
  have r: "connect readable_report_env = None" "query readable_report_env = None"
    "stream_end readable_report_env = None" "report_exists readable_report_env"
    "report_readable readable_report_env"
    by (simp_all add: readable_report_env_def quiet_env_def report_readable_def)
  have u: "connect unreadable_report_env = None" "query unreadable_report_env = None"
    "stream_end unreadable_report_env = None" "report_exists unreadable_report_env"
    "\<not> report_readable unreadable_report_env"
    by (simp_all add: unreadable_report_env_def quiet_env_def report_readable_def)
  show ?thesis
    using q r u report_decides_outcome [OF q(1-3)] report_decides_outcome [OF r(1-3)]
      report_decides_outcome [OF u(1-3)]
    by simp
qed

text \<open>
  The claim as stated fails: a run whose stream ends normally and whose recommendations
  file exists and cannot be decoded ends with exit status 1.
\<close>

theorem report_exists_counterexample:
  "connect unreadable_report_env = None \<and> query unreadable_report_env = None \<and>
   stream_end unreadable_report_env = None \<and> report_exists unreadable_report_env \<and>
   outcome (main unreadable_report_env) = ReportUnreadable \<and>
   exit_status (main unreadable_report_env) = 1"
  by (simp add: unreadable_report_env_def quiet_env_def main_def check_report_def Let_def)

text \<open>
  Claim C6. If the connection fails, the run ends with exit status 1; the tracker,
  \<^verbatim>\<open>tools_used\<close> and the reasoning count are those of a new monitor, and the result is
  the same for any other response, so no event is processed. A missing CLI gives the
  outcome \<open>SessionToolingMissing\<close> and the two lines of line 372 and 373, a process
  error gives \<open>SessionProcessFailed\<close> and the line of line 376, and any other
  exception gives \<open>UnexpectedFailure\<close> and the line of line 379.
\<close>

theorem connect_failure:
  assumes "connect env = Some e"
  shows "exit_status (main env) = 1 \<and>
    tracker (final (main env)) = init_tracker \<and>
    tools_used (final (main env)) = {} \<and>
    claude_reasoning_count (final (main env)) = 0 \<and>
    main (env\<lparr>messages := msgs, stream_end := se\<rparr>) = main env \<and>
    (case e of
       CLINotFoundError d \<Rightarrow>
         outcome (main env) = SessionToolingMissing \<and>
         logged (final (main env)) =
           [Initializing, Separator, RunningAnalysis, CliNotFound d, MakeSureCliInstalled]
     | ProcessError d \<Rightarrow>
         outcome (main env) = SessionProcessFailed \<and>
         logged (final (main env)) =
           [Initializing, Separator, RunningAnalysis, ClaudeProcessError d]
     | OtherException d \<Rightarrow>
         outcome (main env) = UnexpectedFailure \<and>
         logged (final (main env)) =
           [Initializing, Separator, RunningAnalysis, UnexpectedError d])"
proof -
  have m: "main env = handle_exception e (log_all [Initializing, Separator, RunningAnalysis] init_monitor)"
    using assms by (simp add: main_def Let_def del: log_all.simps)
  have m': "main (env\<lparr>messages := msgs, stream_end := se\<rparr>) =
      handle_exception e (log_all [Initializing, Separator, RunningAnalysis] init_monitor)"
    using assms by (simp add: main_def Let_def del: log_all.simps)
  show ?thesis
    unfolding m m' handle_exception_final
    by (cases e) (simp_all add: init_monitor_def del: log_all.simps)
qed

theorem connect_failure_witness:
  "connect no_cli_env = Some (CLINotFoundError ''Claude Code not found'') \<and>
   exit_status (main no_cli_env) = 1 \<and>
   outcome (main no_cli_env) = SessionToolingMissing \<and>
   tracker (final (main no_cli_env)) = init_tracker \<and>
   tools_used (final (main no_cli_env)) = {} \<and>
   logged (final (main no_cli_env)) =
     [Initializing, Separator, RunningAnalysis, CliNotFound ''Claude Code not found'',
      MakeSureCliInstalled] \<and>
   connect failed_process_env = Some (ProcessError ''exit code 1'') \<and>
   exit_status (main failed_process_env) = 1 \<and>
   outcome (main failed_process_env) = SessionProcessFailed \<and>
   logged (final (main failed_process_env)) =
     [Initializing, Separator, RunningAnalysis, ClaudeProcessError ''exit code 1'']"
proof -
  have a: "connect no_cli_env = Some (CLINotFoundError ''Claude Code not found'')"
    by (simp add: no_cli_env_def)
  have b: "connect failed_process_env = Some (ProcessError ''exit code 1'')"
    by (simp add: failed_process_env_def)
  show ?thesis
    using a b connect_failure [OF a] connect_failure [OF b]
    by simp
qed

end
